theory Spec2Isabelle
  imports Complex_Main
begin

section \<open>Numbers of the program\<close>

text \<open>
  The program computes with NumPy double-precision numbers. A number is a real, one of the
  two infinities, or NaN. Signed zeros are not distinguished. Every arithmetic operation
  takes a rounding \<open>rnd\<close>, applied to the exact real result of the operation:
  \<^item> \<open>exact\<close> keeps the real result (arithmetic over the reals, no rounding, no overflow);
  \<^item> \<open>ranged\<close> turns a result whose magnitude reaches the overflow threshold of doubles
    under round-to-nearest, \<open>2 ^ 1024 - 2 ^ 970\<close>, into an infinity, as a double operation
    does, and keeps every other result (rounding below the threshold is not modelled).
  NumPy reports an invalid operation, a division by zero or an overflow with a warning and
  returns NaN or an infinity: none of them raises.
\<close>

datatype f64 = Fin real | PInf | NInf | NaN

type_synonym rounding = "real \<Rightarrow> f64"

definition exact :: rounding where
  "exact r = Fin r"

definition threshold :: real where
  "threshold = 2 ^ 1024 - 2 ^ 970"

definition ranged :: rounding where
  "ranged r = (if threshold \<le> r then PInf else if r \<le> - threshold then NInf else Fin r)"

fun f_neg :: "f64 \<Rightarrow> f64" where
  "f_neg (Fin a) = Fin (- a)"
| "f_neg PInf = NInf"
| "f_neg NInf = PInf"
| "f_neg NaN = NaN"

fun f_add :: "rounding \<Rightarrow> f64 \<Rightarrow> f64 \<Rightarrow> f64" where
  "f_add rnd NaN b = NaN"
| "f_add rnd a NaN = NaN"
| "f_add rnd (Fin a) (Fin b) = rnd (a + b)"
| "f_add rnd (Fin a) PInf = PInf"
| "f_add rnd (Fin a) NInf = NInf"
| "f_add rnd PInf (Fin b) = PInf"
| "f_add rnd NInf (Fin b) = NInf"
| "f_add rnd PInf PInf = PInf"
| "f_add rnd NInf NInf = NInf"
| "f_add rnd PInf NInf = NaN"
| "f_add rnd NInf PInf = NaN"

definition f_sub :: "rounding \<Rightarrow> f64 \<Rightarrow> f64 \<Rightarrow> f64" where
  "f_sub rnd a b = f_add rnd a (f_neg b)"

fun f_mul :: "rounding \<Rightarrow> f64 \<Rightarrow> f64 \<Rightarrow> f64" where
  "f_mul rnd NaN b = NaN"
| "f_mul rnd a NaN = NaN"
| "f_mul rnd (Fin a) (Fin b) = rnd (a * b)"
| "f_mul rnd (Fin a) PInf = (if a = 0 then NaN else if 0 < a then PInf else NInf)"
| "f_mul rnd (Fin a) NInf = (if a = 0 then NaN else if 0 < a then NInf else PInf)"
| "f_mul rnd PInf (Fin b) = (if b = 0 then NaN else if 0 < b then PInf else NInf)"
| "f_mul rnd NInf (Fin b) = (if b = 0 then NaN else if 0 < b then NInf else PInf)"
| "f_mul rnd PInf PInf = PInf"
| "f_mul rnd NInf NInf = PInf"
| "f_mul rnd PInf NInf = NInf"
| "f_mul rnd NInf PInf = NInf"

fun f_div :: "rounding \<Rightarrow> f64 \<Rightarrow> f64 \<Rightarrow> f64" where
  "f_div rnd NaN b = NaN"
| "f_div rnd a NaN = NaN"
| "f_div rnd (Fin a) (Fin b) =
     (if b = 0 then (if a = 0 then NaN else if 0 < a then PInf else NInf)
      else rnd (a / b))"
| "f_div rnd (Fin a) PInf = Fin 0"
| "f_div rnd (Fin a) NInf = Fin 0"
| "f_div rnd PInf (Fin b) = (if 0 \<le> b then PInf else NInf)"
| "f_div rnd NInf (Fin b) = (if 0 \<le> b then NInf else PInf)"
| "f_div rnd PInf PInf = NaN"
| "f_div rnd NInf NInf = NaN"
| "f_div rnd PInf NInf = NaN"
| "f_div rnd NInf PInf = NaN"

text \<open>The source's \<open>v**2\<close>.\<close>

definition f_pow2 :: "rounding \<Rightarrow> f64 \<Rightarrow> f64" where
  "f_pow2 rnd a = f_mul rnd a a"

text \<open>\<open>np.sqrt\<close> of a double: NaN below zero (HOL's \<open>sqrt\<close> is not used there).\<close>

fun f_sqrt :: "f64 \<Rightarrow> f64" where
  "f_sqrt (Fin a) = (if a < 0 then NaN else Fin (sqrt a))"
| "f_sqrt PInf = PInf"
| "f_sqrt NInf = NaN"
| "f_sqrt NaN = NaN"

fun f_exp :: "rounding \<Rightarrow> f64 \<Rightarrow> f64" where
  "f_exp rnd (Fin a) = rnd (exp a)"
| "f_exp rnd PInf = PInf"
| "f_exp rnd NInf = Fin 0"
| "f_exp rnd NaN = NaN"

text \<open>Comparisons: every ordered comparison with NaN is false, and NaN differs from everything.\<close>

fun f_lt :: "f64 \<Rightarrow> f64 \<Rightarrow> bool" where
  "f_lt NaN b = False"
| "f_lt a NaN = False"
| "f_lt (Fin a) (Fin b) = (a < b)"
| "f_lt (Fin a) PInf = True"
| "f_lt NInf (Fin b) = True"
| "f_lt NInf PInf = True"
| "f_lt a b = False"

definition f_gt :: "f64 \<Rightarrow> f64 \<Rightarrow> bool" where
  "f_gt a b = f_lt b a"

fun f_ne :: "f64 \<Rightarrow> f64 \<Rightarrow> bool" where
  "f_ne NaN b = True"
| "f_ne a NaN = True"
| "f_ne a b = (a \<noteq> b)"

text \<open>\<open>numpy.where\<close> and \<open>numpy.logical_and\<close> on a single number.\<close>

definition logical_and :: "bool \<Rightarrow> bool \<Rightarrow> bool" where
  "logical_and a b = (a \<and> b)"

definition where_np :: "bool \<Rightarrow> f64 \<Rightarrow> f64 \<Rightarrow> f64" where
  "where_np c a b = (if c then a else b)"

section \<open>The initial profile\<close>

text \<open>
  \<open>qinit\<close> first assigns to \<open>q\<close> the sum of a Gaussian term and the indicator, then assigns
  the indicator alone and returns it. The integers \<open>1\<close> and \<open>0\<close> of \<open>where\<close> are given as
  the numbers they become in the division that follows in \<open>qtrue\<close>.
\<close>

definition qinit :: "rounding \<Rightarrow> f64 \<Rightarrow> f64" where
  "qinit rnd x =
     (let beta = Fin 100;
          gamma = Fin 0;
          x0 = Fin 0.75;
          q = f_add rnd (f_exp rnd (f_mul rnd (f_neg beta) (f_pow2 rnd (f_sub rnd x x0))))
                (where_np (logical_and (f_gt x (Fin 0.1)) (f_lt x (Fin 0.4))) (Fin 1) (Fin 0));
          q = where_np (logical_and (f_gt x (Fin 0.1)) (f_lt x (Fin 0.4))) (Fin 1) (Fin 0)
      in q)"

section \<open>Python values and errors\<close>

text \<open>
  A coordinate is a Python \<open>float\<close> (NumPy's \<open>float64\<close> is a subclass of it) or a Python
  \<open>int\<close>, which is unbounded. The inputs of \<open>qtrue\<close> modelled are: a scalar, a list of
  scalars, a one-dimensional \<open>ndarray\<close> of doubles, a tuple of scalars, a string and
  \<open>None\<close>. Booleans, NumPy scalars other than \<open>float64\<close>, nested lists and arrays of
  more than one dimension are not modelled. The time \<open>t\<close> is a double.
\<close>

datatype error = UnboundLocalError | TypeError | IndexError

datatype scalar = PyInt int | PyFloat f64

datatype pyval =
    Scalar scalar
  | PyList "scalar list"
  | NdArray "f64 list"
  | PyTuple "scalar list"
  | PyStr string
  | PyNone

text \<open>
  \<open>isinstance(x,(np.ndarray,list))\<close> and \<open>isinstance(x,(float,int))\<close>. In \<open>qtrue\<close> the
  second test is written as the case \<open>Scalar\<close> of the input, which also gives the scalar.
\<close>

fun isinstance_ndarray_list :: "pyval \<Rightarrow> bool" where
  "isinstance_ndarray_list (PyList xs) = True"
| "isinstance_ndarray_list (NdArray xs) = True"
| "isinstance_ndarray_list x = False"

fun isinstance_float_int :: "pyval \<Rightarrow> bool" where
  "isinstance_float_int (Scalar s) = True"
| "isinstance_float_int x = False"

text \<open>
  \<open>np.sqrt\<close> of a scalar. NumPy converts a Python \<open>int\<close> to a 64-bit integer (signed or
  unsigned) before taking the root; an \<open>int\<close> outside both ranges becomes an object, for
  which \<open>np.sqrt\<close> raises \<open>TypeError\<close>.
\<close>

fun np_sqrt :: "scalar \<Rightarrow> error + f64" where
  "np_sqrt (PyFloat v) = Inr (f_sqrt v)"
| "np_sqrt (PyInt n) =
     (if - (2 ^ 63) \<le> n \<and> n < 2 ^ 64 then Inr (f_sqrt (Fin (real_of_int n)))
      else Inl TypeError)"

text \<open>The tests \<open>x != 0\<close> and \<open>x[i] != 0.\<close>.\<close>

fun ne_zero :: "scalar \<Rightarrow> bool" where
  "ne_zero (PyFloat v) = f_ne v (Fin 0)"
| "ne_zero (PyInt n) = (n \<noteq> 0)"

text \<open>
  \<open>np.size(x)\<close> and \<open>x[i]\<close> for an index \<open>i\<close> that is not negative. \<open>qtrue\<close> evaluates
  them for a list or an array only. A scalar and \<open>None\<close> have no items; the characters of a
  string are not scalars, and the model gives \<open>TypeError\<close> for them too.
\<close>

fun np_size :: "pyval \<Rightarrow> nat" where
  "np_size (PyList xs) = length xs"
| "np_size (NdArray xs) = length xs"
| "np_size (PyTuple xs) = length xs"
| "np_size x = 1"

fun getitem :: "pyval \<Rightarrow> nat \<Rightarrow> error + scalar" where
  "getitem (PyList xs) i = (if i < length xs then Inr (xs ! i) else Inl IndexError)"
| "getitem (NdArray xs) i = (if i < length xs then Inr (PyFloat (xs ! i)) else Inl IndexError)"
| "getitem (PyTuple xs) i = (if i < length xs then Inr (xs ! i) else Inl IndexError)"
| "getitem x i = Inl TypeError"

text \<open>The assignment \<open>q[i] = v\<close> to an array of doubles.\<close>

definition setitem :: "f64 list \<Rightarrow> nat \<Rightarrow> f64 \<Rightarrow> error + f64 list" where
  "setitem q i v = (if i < length q then Inr (q[i := v]) else Inl IndexError)"

text \<open>
  \<open>np.empty(m)\<close> returns a new array of \<open>m\<close> doubles whose contents are whatever the memory
  held: \<open>junk\<close> gives them.
\<close>

definition np_empty :: "(nat \<Rightarrow> f64) \<Rightarrow> nat \<Rightarrow> f64 list" where
  "np_empty junk m = map junk [0..<m]"

section \<open>The reference solution\<close>

text \<open>
  The body of \<open>for i in range(m)\<close>, run over the indices of \<open>range(m)\<close> in order. The
  shifted argument \<open>xm\<close> is computed before the test of \<open>x[i]\<close>, as in the source. The
  source evaluates \<open>x[i]\<close> and \<open>np.sqrt(x[i])\<close> more than once, each time with the same
  result: the model names them \<open>xi\<close> and \<open>r\<close>.
\<close>

fun qtrue_loop :: "rounding \<Rightarrow> pyval \<Rightarrow> f64 \<Rightarrow> nat list \<Rightarrow> f64 list \<Rightarrow> error + f64 list" where
  "qtrue_loop rnd x t [] q = Inr q"
| "qtrue_loop rnd x t (i # is) q =
     (case getitem x i of Inl e \<Rightarrow> Inl e | Inr xi \<Rightarrow>
      (case np_sqrt xi of Inl e \<Rightarrow> Inl e | Inr r \<Rightarrow>
       (let xm = f_pow2 rnd (f_sub rnd r t) in
        (case (if ne_zero xi
               then setitem q i (f_mul rnd (f_div rnd (qinit rnd xm) r) (f_sqrt xm))
               else setitem q i (Fin 0)) of
           Inl e \<Rightarrow> Inl e
         | Inr q' \<Rightarrow> qtrue_loop rnd x t is q'))))"

text \<open>
  \<open>qtrue\<close>: two \<open>if\<close> statements in sequence, each assigning the local \<open>q\<close>, then
  \<open>return q\<close>, which raises \<open>UnboundLocalError\<close> when neither has assigned it.
  \<open>qtrue_array\<close> is the body of the first \<open>if\<close> and \<open>qtrue_scalar\<close> the body of the second.
  The locals \<open>beta\<close>, \<open>gamma\<close> and \<open>x0\<close> of the source are never read.
\<close>

definition qtrue_array :: "rounding \<Rightarrow> (nat \<Rightarrow> f64) \<Rightarrow> pyval \<Rightarrow> f64 \<Rightarrow> error + pyval" where
  "qtrue_array rnd junk x t =
     (let m = np_size x;
          q = np_empty junk m
      in (case qtrue_loop rnd x t [0..<m] q of Inl e \<Rightarrow> Inl e | Inr q' \<Rightarrow> Inr (NdArray q')))"

definition qtrue_scalar :: "rounding \<Rightarrow> scalar \<Rightarrow> f64 \<Rightarrow> error + pyval" where
  "qtrue_scalar rnd x t =
     (if ne_zero x
      then (case np_sqrt x of Inl e \<Rightarrow> Inl e | Inr r \<Rightarrow>
            (let xm = f_pow2 rnd (f_sub rnd r t)
             in Inr (Scalar (PyFloat (f_mul rnd (f_div rnd (qinit rnd xm) r) (f_sqrt xm))))))
      else Inr (Scalar (PyInt 0)))"

definition qtrue :: "rounding \<Rightarrow> (nat \<Rightarrow> f64) \<Rightarrow> pyval \<Rightarrow> f64 \<Rightarrow> error + pyval" where
  "qtrue rnd junk x t =
     (case (if isinstance_ndarray_list x
            then map_sum id Some (qtrue_array rnd junk x t)
            else Inr None) of
        Inl e \<Rightarrow> Inl e
      | Inr q1 \<Rightarrow>
         (case (case x of
                  Scalar s \<Rightarrow> map_sum id Some (qtrue_scalar rnd s t)
                | _ \<Rightarrow> Inr q1) of
            Inl e \<Rightarrow> Inl e
          | Inr q2 \<Rightarrow> (case q2 of None \<Rightarrow> Inl UnboundLocalError | Some v \<Rightarrow> Inr v)))"

section \<open>The reference solution on a store\<close>

text \<open>
  Every Python value is an object at an address. The store holds the objects, the next
  free address, and the module's global \<open>probdata\<close> (the parameters \<open>u\<close> and \<open>beta\<close> read
  from \<open>setprob.data\<close> when the module is imported). Lists and arrays are mutable: an
  assignment \<open>q[i] = v\<close> changes the object at the address of \<open>q\<close>, for every holder of
  that address. \<open>qtrue_st\<close> is \<open>qtrue\<close> with \<open>x\<close> and the result passed by address.
  Every result is allocated, also the integer \<open>0\<close>, an object that Python shares.
\<close>

record store =
  objs :: "nat \<Rightarrow> pyval"
  fresh :: nat
  probdata :: "real \<times> real"

definition alloc :: "pyval \<Rightarrow> store \<Rightarrow> nat \<times> store" where
  "alloc v st = (fresh st, st\<lparr>objs := (objs st)(fresh st := v), fresh := Suc (fresh st)\<rparr>)"

definition setitem_st :: "nat \<Rightarrow> nat \<Rightarrow> f64 \<Rightarrow> store \<Rightarrow> error + store" where
  "setitem_st qa i v st =
     (case objs st qa of
        NdArray q \<Rightarrow>
          (case setitem q i v of
             Inl e \<Rightarrow> Inl e
           | Inr q' \<Rightarrow> Inr (st\<lparr>objs := (objs st)(qa := NdArray q')\<rparr>))
      | _ \<Rightarrow> Inl TypeError)"

fun qtrue_loop_st :: "rounding \<Rightarrow> nat \<Rightarrow> f64 \<Rightarrow> nat list \<Rightarrow> nat \<Rightarrow> store \<Rightarrow> error option \<times> store" where
  "qtrue_loop_st rnd xa t [] qa st = (None, st)"
| "qtrue_loop_st rnd xa t (i # is) qa st =
     (case getitem (objs st xa) i of Inl e \<Rightarrow> (Some e, st) | Inr xi \<Rightarrow>
      (case np_sqrt xi of Inl e \<Rightarrow> (Some e, st) | Inr r \<Rightarrow>
       (let xm = f_pow2 rnd (f_sub rnd r t) in
        (case (if ne_zero xi
               then setitem_st qa i (f_mul rnd (f_div rnd (qinit rnd xm) r) (f_sqrt xm)) st
               else setitem_st qa i (Fin 0) st) of
           Inl e \<Rightarrow> (Some e, st)
         | Inr st' \<Rightarrow> qtrue_loop_st rnd xa t is qa st'))))"

definition qtrue_array_st :: "rounding \<Rightarrow> (nat \<Rightarrow> f64) \<Rightarrow> nat \<Rightarrow> f64 \<Rightarrow> store \<Rightarrow> (error + nat) \<times> store" where
  "qtrue_array_st rnd junk xa t st =
     (let m = np_size (objs st xa);
          (qa, st0) = alloc (NdArray (np_empty junk m)) st;
          (e, st') = qtrue_loop_st rnd xa t [0..<m] qa st0
      in (case e of Some err \<Rightarrow> (Inl err, st') | None \<Rightarrow> (Inr qa, st')))"

definition qtrue_scalar_st :: "rounding \<Rightarrow> scalar \<Rightarrow> f64 \<Rightarrow> store \<Rightarrow> (error + nat) \<times> store" where
  "qtrue_scalar_st rnd s t st =
     (case qtrue_scalar rnd s t of
        Inl e \<Rightarrow> (Inl e, st)
      | Inr v \<Rightarrow> (let (a, st') = alloc v st in (Inr a, st')))"

definition qtrue_st :: "rounding \<Rightarrow> (nat \<Rightarrow> f64) \<Rightarrow> nat \<Rightarrow> f64 \<Rightarrow> store \<Rightarrow> (error + nat) \<times> store" where
  "qtrue_st rnd junk xa t st =
     (case (if isinstance_ndarray_list (objs st xa)
            then (let (r, st') = qtrue_array_st rnd junk xa t st in (map_sum id Some r, st'))
            else (Inr None, st)) of
        (Inl e, st1) \<Rightarrow> (Inl e, st1)
      | (Inr q1, st1) \<Rightarrow>
         (case (case objs st1 xa of
                  Scalar s \<Rightarrow> (let (r, st') = qtrue_scalar_st rnd s t st1 in (map_sum id Some r, st'))
                | _ \<Rightarrow> (Inr q1, st1)) of
            (Inl e, st2) \<Rightarrow> (Inl e, st2)
          | (Inr q2, st2) \<Rightarrow>
             (case q2 of None \<Rightarrow> (Inl UnboundLocalError, st2) | Some a \<Rightarrow> (Inr a, st2))))"

text \<open>What a caller sees of a result: the error, or the object at the returned address.\<close>

definition observe :: "(error + nat) \<times> store \<Rightarrow> error + pyval" where
  "observe rs = map_sum id (objs (snd rs)) (fst rs)"

section \<open>Vocabulary of the properties\<close>

text \<open>
  The elements of a list or of an array, as scalars; the scalars that \<open>np.sqrt\<close> accepts
  (every \<open>float\<close>, and an \<open>int\<close> in NumPy's 64-bit ranges), and the root it returns for them.
\<close>

fun elems :: "pyval \<Rightarrow> scalar list" where
  "elems (PyList xs) = xs"
| "elems (NdArray xs) = map PyFloat xs"
| "elems x = []"

fun np_ok :: "scalar \<Rightarrow> bool" where
  "np_ok (PyFloat v) = True"
| "np_ok (PyInt n) = (- (2 ^ 63) \<le> n \<and> n < 2 ^ 64)"

fun sqrt_val :: "scalar \<Rightarrow> f64" where
  "sqrt_val (PyFloat v) = f_sqrt v"
| "sqrt_val (PyInt n) = f_sqrt (Fin (real_of_int n))"

text \<open>The number that one pass of the loop body stores for the element \<open>xi\<close>.\<close>

definition cell :: "rounding \<Rightarrow> scalar \<Rightarrow> f64 \<Rightarrow> f64" where
  "cell rnd xi t =
     (if ne_zero xi
      then f_mul rnd (f_div rnd (qinit rnd (f_pow2 rnd (f_sub rnd (sqrt_val xi) t))) (sqrt_val xi))
             (f_sqrt (f_pow2 rnd (f_sub rnd (sqrt_val xi) t)))
      else Fin 0)"













definition zero_mem :: "nat \<Rightarrow> f64" where
  "zero_mem i = Fin 0"

text \<open>
  A memory full of NaN, and a store for examples: the array \<open>[0.0, 4.0]\<close> at address 0,
  nothing else allocated, and the parameters \<open>u = 1\<close>, \<open>beta = 100\<close>.
\<close>

definition nan_mem :: "nat \<Rightarrow> f64" where
  "nan_mem i = NaN"

definition example_store :: store where
  "example_store =
     \<lparr>objs = (\<lambda>a. PyNone)(0 := NdArray [Fin 0, Fin 4]), fresh = 1, probdata = (1, 100)\<rparr>"

section \<open>The loop and the two branches\<close>

lemma qinit_cases:
  "qinit rnd v = (if f_gt v (Fin 0.1) \<and> f_lt v (Fin 0.4) then Fin 1 else Fin 0)"
  by (simp add: qinit_def where_np_def logical_and_def)

lemma np_sqrt_ok: "np_sqrt s = (if np_ok s then Inr (sqrt_val s) else Inl TypeError)"
  by (cases s) simp_all

lemma getitem_elems:
  "isinstance_ndarray_list x \<Longrightarrow> i < length (elems x) \<Longrightarrow> getitem x i = Inr (elems x ! i)"
  by (cases x) simp_all

lemma np_size_elems: "isinstance_ndarray_list x \<Longrightarrow> np_size x = length (elems x)"
  by (cases x) simp_all

text \<open>Each pass stores the cell of its index; no index is out of range.\<close>

lemma qtrue_loop_fold:
  assumes "isinstance_ndarray_list x"
    and "list_all np_ok (elems x)"
    and "length q = length (elems x)"
    and "\<forall>i\<in>set js. i < length q"
  shows "qtrue_loop rnd x t js q = Inr (fold (\<lambda>i q. q[i := cell rnd (elems x ! i) t]) js q)"
  using assms
proof (induction js arbitrary: q)
  case Nil
  then show ?case by simp
next
  case (Cons j js)
  have j: "j < length (elems x)" using Cons.prems by simp
  have ok: "np_ok (elems x ! j)" using Cons.prems(2) j by (simp add: list_all_length)
  have step: "qtrue_loop rnd x t (j # js) q = qtrue_loop rnd x t js (q[j := cell rnd (elems x ! j) t])"
    using Cons.prems j ok
    by (simp add: getitem_elems np_sqrt_ok setitem_def cell_def Let_def)
  show ?case
    using Cons.IH[of "q[j := cell rnd (elems x ! j) t]"] Cons.prems step by simp
qed

lemma fold_update_upt:
  "n \<le> length q \<Longrightarrow> fold (\<lambda>i q. q[i := f i]) [0..<n] q = map f [0..<n] @ drop n q"
proof (induction n)
  case 0
  then show ?case by simp
next
  case (Suc n)
  then have "n < length q" by simp
  then have "(map f [0..<n] @ drop n q)[n := f n] = map f [0..<n] @ (drop n q)[0 := f n]"
    by (simp add: list_update_append)
  also have "(drop n q)[0 := f n] = f n # drop (Suc n) q"
    using \<open>n < length q\<close> by (metis Cons_nth_drop_Suc list_update_code(2))
  finally show ?case using Suc by simp
qed

text \<open>
  After \<open>range(m)\<close> every entry of the new array has been assigned: nothing of what
  \<open>np.empty\<close> found in memory is left in the result.
\<close>

lemma qtrue_array_map:
  assumes "isinstance_ndarray_list x" and "list_all np_ok (elems x)"
  shows "qtrue_array rnd junk x t = Inr (NdArray (map (\<lambda>s. cell rnd s t) (elems x)))"
proof -
  let ?n = "length (elems x)"
  let ?step = "\<lambda>i q. q[i := cell rnd (elems x ! i) t]"
  have "qtrue_loop rnd x t [0..<?n] (np_empty junk ?n) = Inr (fold ?step [0..<?n] (np_empty junk ?n))"
    using assms by (intro qtrue_loop_fold) (simp_all add: np_empty_def)
  also have "fold ?step [0..<?n] (np_empty junk ?n) = map (\<lambda>i. cell rnd (elems x ! i) t) [0..<?n]"
    by (simp add: fold_update_upt np_empty_def)
  also have "\<dots> = map (\<lambda>s. cell rnd s t) (elems x)"
    by (rule nth_equalityI) simp_all
  finally show ?thesis by (simp add: qtrue_array_def np_size_elems[OF assms(1)] Let_def)
qed

lemma qtrue_of_array:
  assumes "isinstance_ndarray_list x" and "list_all np_ok (elems x)"
  shows "qtrue rnd junk x t = Inr (NdArray (map (\<lambda>s. cell rnd s t) (elems x)))"
  using assms by (cases x) (simp_all add: qtrue_def qtrue_array_map)

lemma qtrue_of_scalar: "qtrue rnd junk (Scalar s) t = qtrue_scalar rnd s t"
  by (cases "qtrue_scalar rnd s t") (simp_all add: qtrue_def)

lemma qtrue_scalar_cell:
  "np_ok s \<Longrightarrow>
   qtrue_scalar rnd s t = Inr (Scalar (if ne_zero s then PyFloat (cell rnd s t) else PyInt 0))"
  by (simp add: qtrue_scalar_def np_sqrt_ok cell_def Let_def)

section \<open>Arithmetic with overflow\<close>

text \<open>The threshold lies above every power of two up to \<open>2 ^ 969\<close>.\<close>

lemma threshold_eq: "threshold = 2 ^ 970 * (2 ^ 54 - 1)"
proof -
  have "(2::real) ^ 1024 = 2 ^ 970 * 2 ^ 54"
    by (simp only: power_add[symmetric]) simp
  then show ?thesis by (simp add: threshold_def algebra_simps)
qed

lemma threshold_ge: "2 ^ 970 \<le> threshold"
proof -
  have "(1::real) \<le> 2 ^ 54 - 1" by simp
  then have "(2::real) ^ 970 * 1 \<le> 2 ^ 970 * (2 ^ 54 - 1)"
    by (intro mult_left_mono) simp_all
  then show ?thesis by (simp only: threshold_eq mult_1_right)
qed

lemma threshold_gt_pow: "n \<le> 969 \<Longrightarrow> 2 ^ n < threshold"
proof -
  assume "n \<le> 969"
  then have "(2::real) ^ n < 2 ^ 970" by (intro power_strict_increasing) simp_all
  then show ?thesis using threshold_ge by linarith
qed

lemma threshold_gt_one: "1 < threshold"
  using threshold_gt_pow[of 1] by simp

lemma ranged_in: "\<bar>r\<bar> < threshold \<Longrightarrow> ranged r = Fin r"
  by (auto simp: ranged_def)

lemma ranged_zero: "ranged 0 = Fin 0"
  using threshold_gt_one by (simp add: ranged_in)

lemma ranged_nonneg: "0 \<le> r \<Longrightarrow> ranged r = (if r < threshold then Fin r else PInf)"
  using threshold_gt_one by (auto simp: ranged_def)

lemma square_ge_abs: "1 \<le> \<bar>d\<bar> \<Longrightarrow> \<bar>d\<bar> \<le> d * (d::real)"
proof -
  assume "1 \<le> \<bar>d\<bar>"
  then have "\<bar>d\<bar> * 1 \<le> \<bar>d\<bar> * \<bar>d\<bar>" by (intro mult_left_mono) simp_all
  then show ?thesis by (simp add: abs_mult_self_eq)
qed

text \<open>
  The shifted argument \<open>xm\<close> in arithmetic with overflow: the square, or infinity when the
  square (or already the difference) reaches the threshold.
\<close>

lemma pow2_ranged:
  "f_pow2 ranged (f_sub ranged (Fin u) (Fin t)) =
     (if (u - t) * (u - t) < threshold then Fin ((u - t) * (u - t)) else PInf)"
proof (cases "\<bar>u - t\<bar> < threshold")
  case True
  then show ?thesis
    by (simp add: f_pow2_def f_sub_def ranged_in ranged_nonneg)
next
  case False
  then have big: "threshold \<le> \<bar>u - t\<bar>" by simp
  then have "1 \<le> \<bar>u - t\<bar>" using threshold_gt_one by linarith
  then have "threshold \<le> (u - t) * (u - t)" using square_ge_abs[of "u - t"] big by linarith
  moreover have "ranged (u - t) = PInf \<or> ranged (u - t) = NInf"
    using big by (auto simp: ranged_def)
  ultimately show ?thesis
    by (auto simp: f_pow2_def f_sub_def)
qed

text \<open>
  The number stored for a coordinate above zero. When \<open>xm\<close> has overflowed, the profile is 0
  and the product of 0 and the infinite root is NaN.
\<close>

lemma cell_ranged:
  assumes "0 < a"
  shows "cell ranged (PyFloat (Fin a)) (Fin t) =
     (if (sqrt a - t) * (sqrt a - t) < threshold
      then (if 0.1 < (sqrt a - t) * (sqrt a - t) \<and> (sqrt a - t) * (sqrt a - t) < 0.4
            then f_mul ranged (ranged (1 / sqrt a)) (Fin \<bar>sqrt a - t\<bar>)
            else Fin 0)
      else NaN)"
  using assms
  by (simp add: cell_def pow2_ranged qinit_cases f_gt_def ranged_zero)


lemma cell_zero: "cell rnd (PyFloat (Fin 0)) t = Fin 0"
  by (simp add: cell_def)

lemma cell_exact:
  assumes "0 < a"
  shows "cell exact (PyFloat (Fin a)) (Fin t) =
     Fin ((if 0.1 < (sqrt a - t) * (sqrt a - t) \<and> (sqrt a - t) * (sqrt a - t) < 0.4 then 1 else 0)
          / sqrt a * \<bar>sqrt a - t\<bar>)"
  using assms
  by (simp add: cell_def f_sub_def f_pow2_def exact_def qinit_cases f_gt_def)



lemma sqrt_four: "sqrt 4 = 2"
  by (rule real_sqrt_unique) simp_all




section \<open>The initial profile is the indicator of the open interval\<close>


section \<open>The value at a coordinate other than zero\<close>










section \<open>The value at zero\<close>



section \<open>The shape of the result\<close>



section \<open>The concrete scenarios\<close>

lemma sqrt_quarter: "sqrt (25 / 10\<^sup>2) = 1 / 2"
  by (rule real_sqrt_unique) (simp_all add: power2_eq_square)

lemma sqrt_fourth: "sqrt (1 / 4) = 1 / 2"
  by (rule real_sqrt_unique) (simp_all add: power2_eq_square)

lemma quarter_cell:
  "cell exact (PyFloat (Fin 0.25)) (Fin 0) = Fin 1" "cell ranged (PyFloat (Fin 0.25)) (Fin 0) = Fin 1"
proof -
  show "cell exact (PyFloat (Fin 0.25)) (Fin 0) = Fin 1"
    by (simp add: cell_exact sqrt_quarter)
  have "(1::real) / 4 < threshold" "(2::real) < threshold" "(1::real) < threshold"
    using threshold_gt_one threshold_gt_pow[of 1] by simp_all
  then show "cell ranged (PyFloat (Fin 0.25)) (Fin 0) = Fin 1"
    by (simp add: cell_ranged sqrt_fourth ranged_in)
qed

text \<open>
  Claim C5. \<open>qtrue([0.0, 0.25], 0.0)\<close> is the array \<open>[0.0, 1.0]\<close>, \<open>qtrue(0.25, 0.0)\<close> is
  \<open>1.0\<close> and \<open>qtrue(0.0, 5.0)\<close> is \<open>0\<close>, in exact arithmetic and with overflow, whatever
  the memory handed out by \<open>np.empty\<close>.
\<close>

theorem qtrue_examples:
  "qtrue exact junk (PyList [PyFloat (Fin 0), PyFloat (Fin 0.25)]) (Fin 0) = Inr (NdArray [Fin 0, Fin 1])
   \<and> qtrue exact junk (Scalar (PyFloat (Fin 0.25))) (Fin 0) = Inr (Scalar (PyFloat (Fin 1)))
   \<and> qtrue exact junk (Scalar (PyFloat (Fin 0))) (Fin 5) = Inr (Scalar (PyInt 0))
   \<and> qtrue ranged junk (PyList [PyFloat (Fin 0), PyFloat (Fin 0.25)]) (Fin 0) = Inr (NdArray [Fin 0, Fin 1])
   \<and> qtrue ranged junk (Scalar (PyFloat (Fin 0.25))) (Fin 0) = Inr (Scalar (PyFloat (Fin 1)))
   \<and> qtrue ranged junk (Scalar (PyFloat (Fin 0))) (Fin 5) = Inr (Scalar (PyInt 0))"
  using quarter_cell
  by (simp add: qtrue_of_array qtrue_of_scalar qtrue_scalar_cell cell_zero)

section \<open>Inputs of another type\<close>

text \<open>
  Claim C6, as the specification states it: an input that is neither a scalar nor a list or
  array of scalars fails with a type error. It does not: for \<open>None\<close> neither \<open>if\<close> assigns
  \<open>q\<close>, and \<open>return q\<close> raises \<open>UnboundLocalError\<close>.
\<close>

theorem qtrue_none_counterexample:
  "qtrue exact zero_mem PyNone (Fin 0) = Inl UnboundLocalError
   \<and> qtrue exact zero_mem PyNone (Fin 0) \<noteq> Inl TypeError"
  by (simp add: qtrue_def)

text \<open>
  Claim C6, amended. For an input that passes neither \<open>isinstance\<close> test (a tuple, a
  string, \<open>None\<close>), \<open>qtrue\<close> returns no value: it raises \<open>UnboundLocalError\<close>.
\<close>

theorem qtrue_unsupported:
  "\<not> isinstance_ndarray_list x \<Longrightarrow> \<not> isinstance_float_int x \<Longrightarrow>
   qtrue rnd junk x t = Inl UnboundLocalError"
  by (cases x) (simp_all add: qtrue_def)

theorem qtrue_unsupported_witness:
  "\<not> isinstance_ndarray_list (PyTuple [PyFloat (Fin 0), PyFloat (Fin 0.25)])
   \<and> \<not> isinstance_float_int (PyTuple [PyFloat (Fin 0), PyFloat (Fin 0.25)])
   \<and> qtrue exact zero_mem (PyTuple [PyFloat (Fin 0), PyFloat (Fin 0.25)]) (Fin 0) = Inl UnboundLocalError"
  using qtrue_unsupported[of "PyTuple [PyFloat (Fin 0), PyFloat (Fin 0.25)]" exact zero_mem "Fin 0"]
  by simp

section \<open>Sign and finiteness of one stored number\<close>





















section \<open>Finite results\<close>




section \<open>The sign of the result\<close>




section \<open>Reflection of the time\<close>










section \<open>Calls on the store\<close>

lemma store_same: "objs st qa = v \<Longrightarrow> st\<lparr>objs := (objs st)(qa := v)\<rparr> = st"
  by (cases st) auto

lemma store_twice:
  "st\<lparr>objs := (objs st)(qa := v)\<rparr>\<lparr>objs := (objs (st\<lparr>objs := (objs st)(qa := v)\<rparr>))(qa := w)\<rparr>
   = st\<lparr>objs := (objs st)(qa := w)\<rparr>"
  by (cases st) simp

text \<open>
  The loop on the store does what the loop on values does, and of the store it changes the
  new array only: the input \<open>x\<close> lives at another address.
\<close>

lemma qtrue_loop_st_refines:
  assumes "xa \<noteq> qa" and "objs st qa = NdArray q"
  shows "\<exists>q'. qtrue_loop_st rnd xa t js qa st =
            (case qtrue_loop rnd (objs st xa) t js q of Inl e \<Rightarrow> Some e | Inr r \<Rightarrow> None,
             st\<lparr>objs := (objs st)(qa := NdArray q')\<rparr>)
          \<and> (\<forall>r. qtrue_loop rnd (objs st xa) t js q = Inr r \<longrightarrow> r = q')"
  using assms
proof (induction js arbitrary: st q)
  case Nil
  have same: "st\<lparr>objs := (objs st)(qa := NdArray q)\<rparr> = st"
    using Nil(2) by (rule store_same)
  show ?case by (rule exI[of _ q]) (simp only: same, simp)
next
  case (Cons i js)
  have same: "st\<lparr>objs := (objs st)(qa := NdArray q)\<rparr> = st"
    using Cons.prems(2) by (rule store_same)
  show ?case
  proof (cases "getitem (objs st xa) i")
    case (Inl e)
    then show ?thesis by (intro exI[of _ q]) (simp only: same, simp)
  next
    case xi: (Inr xi)
    show ?thesis
    proof (cases "np_sqrt xi")
      case (Inl e)
      then show ?thesis using xi by (intro exI[of _ q]) (simp only: same, simp)
    next
      case r: (Inr r)
      define v where "v = (if ne_zero xi
          then f_mul rnd (f_div rnd (qinit rnd (f_pow2 rnd (f_sub rnd r t))) r) (f_sqrt (f_pow2 rnd (f_sub rnd r t)))
          else Fin 0)"
      show ?thesis
      proof (cases "i < length q")
        case False
        then show ?thesis
          using Cons.prems(2) xi r
          by (intro exI[of _ q]) (simp only: same, simp add: setitem_st_def setitem_def Let_def)
      next
        case True
        let ?st = "st\<lparr>objs := (objs st)(qa := NdArray (q[i := v]))\<rparr>"
        have step_st: "qtrue_loop_st rnd xa t (i # js) qa st = qtrue_loop_st rnd xa t js qa ?st"
          using Cons.prems xi r True by (simp add: setitem_st_def setitem_def Let_def v_def)
        have step: "qtrue_loop rnd (objs st xa) t (i # js) q = qtrue_loop rnd (objs st xa) t js (q[i := v])"
          using xi r True by (simp add: setitem_def Let_def v_def)
        have x: "objs ?st xa = objs st xa" using Cons.prems(1) by simp
        have "\<exists>q'. qtrue_loop_st rnd xa t js qa ?st =
            (case qtrue_loop rnd (objs ?st xa) t js (q[i := v]) of Inl e \<Rightarrow> Some e | Inr r \<Rightarrow> None,
             ?st\<lparr>objs := (objs ?st)(qa := NdArray q')\<rparr>)
          \<and> (\<forall>r. qtrue_loop rnd (objs ?st xa) t js (q[i := v]) = Inr r \<longrightarrow> r = q')"
          using Cons.prems(1) by (intro Cons.IH) simp_all
        then show ?thesis
          unfolding step_st step x store_twice .
      qed
    qed
  qed
qed


text \<open>
  Two runs of the loop that start from arrays of the same length fail alike or agree at
  every index the loop has passed: what \<open>np.empty\<close> found in memory does not reach the
  result.
\<close>

lemma qtrue_loop_agree:
  assumes "length q = length q'"
  shows "(\<exists>e. qtrue_loop rnd x t js q = Inl e \<and> qtrue_loop rnd x t js q' = Inl e)
       \<or> (\<exists>r r'. qtrue_loop rnd x t js q = Inr r \<and> qtrue_loop rnd x t js q' = Inr r'
             \<and> length r = length q \<and> length r' = length q
             \<and> (\<forall>j<length q. j \<in> set js \<or> q ! j = q' ! j \<longrightarrow> r ! j = r' ! j))"
  using assms
proof (induction js arbitrary: q q')
  case Nil
  then show ?case by simp
next
  case (Cons i js)
  show ?case
  proof (cases "getitem x i")
    case (Inl e)
    then show ?thesis by simp
  next
    case xi: (Inr xi)
    show ?thesis
    proof (cases "np_sqrt xi")
      case (Inl e)
      then show ?thesis using xi by simp
    next
      case r: (Inr r)
      define v where "v = (if ne_zero xi
          then f_mul rnd (f_div rnd (qinit rnd (f_pow2 rnd (f_sub rnd r t))) r) (f_sqrt (f_pow2 rnd (f_sub rnd r t)))
          else Fin 0)"
      show ?thesis
      proof (cases "i < length q")
        case False
        then show ?thesis using xi r Cons.prems by (simp add: setitem_def Let_def)
      next
        case True
        have s1: "qtrue_loop rnd x t (i # js) q = qtrue_loop rnd x t js (q[i := v])"
          using xi r True by (simp add: setitem_def Let_def v_def)
        have s2: "qtrue_loop rnd x t (i # js) q' = qtrue_loop rnd x t js (q'[i := v])"
          using xi r True Cons.prems by (simp add: setitem_def Let_def v_def)
        have keep: "j \<in> set js \<or> q[i := v] ! j = q'[i := v] ! j"
          if "j < length q" "j \<in> set (i # js) \<or> q ! j = q' ! j" for j
          using that True Cons.prems by (cases "j = i") auto
        have "length (q[i := v]) = length (q'[i := v])" using Cons.prems by simp
        from Cons.IH[OF this] show ?thesis
          unfolding s1 s2
        proof (elim disjE exE conjE)
          fix e
          assume "qtrue_loop rnd x t js (q[i := v]) = Inl e" "qtrue_loop rnd x t js (q'[i := v]) = Inl e"
          then show "(\<exists>e. qtrue_loop rnd x t js (q[i := v]) = Inl e \<and> qtrue_loop rnd x t js (q'[i := v]) = Inl e)
            \<or> (\<exists>r r'. qtrue_loop rnd x t js (q[i := v]) = Inr r \<and> qtrue_loop rnd x t js (q'[i := v]) = Inr r'
                \<and> length r = length q \<and> length r' = length q
                \<and> (\<forall>j<length q. j \<in> set (i # js) \<or> q ! j = q' ! j \<longrightarrow> r ! j = r' ! j))"
            by simp
        next
          fix r r'
          assume a: "qtrue_loop rnd x t js (q[i := v]) = Inr r" "qtrue_loop rnd x t js (q'[i := v]) = Inr r'"
            "length r = length (q[i := v])" "length r' = length (q[i := v])"
            "\<forall>j<length (q[i := v]). j \<in> set js \<or> q[i := v] ! j = q'[i := v] ! j \<longrightarrow> r ! j = r' ! j"
          have "r ! j = r' ! j" if "j < length q" "j \<in> set (i # js) \<or> q ! j = q' ! j" for j
          proof -
            have "j \<in> set js \<or> q[i := v] ! j = q'[i := v] ! j" using that by (rule keep)
            then show ?thesis using a(5) that(1) by auto
          qed
          then show "(\<exists>e. qtrue_loop rnd x t js (q[i := v]) = Inl e \<and> qtrue_loop rnd x t js (q'[i := v]) = Inl e)
            \<or> (\<exists>r r'. qtrue_loop rnd x t js (q[i := v]) = Inr r \<and> qtrue_loop rnd x t js (q'[i := v]) = Inr r'
                \<and> length r = length q \<and> length r' = length q
                \<and> (\<forall>j<length q. j \<in> set (i # js) \<or> q ! j = q' ! j \<longrightarrow> r ! j = r' ! j))"
            using a(1-4) by simp
        qed
      qed
    qed
  qed
qed

lemma qtrue_array_junk: "qtrue_array rnd junk x t = qtrue_array rnd junk' x t"
proof -
  let ?m = "np_size x"
  have len: "length (np_empty junk ?m) = length (np_empty junk' ?m)" "length (np_empty junk ?m) = ?m"
    by (simp_all add: np_empty_def)
  from qtrue_loop_agree[OF len(1), of rnd x t "[0..<?m]"]
  show ?thesis
  proof
    assume "\<exists>e. qtrue_loop rnd x t [0..<?m] (np_empty junk ?m) = Inl e
              \<and> qtrue_loop rnd x t [0..<?m] (np_empty junk' ?m) = Inl e"
    then show ?thesis by (auto simp: qtrue_array_def Let_def)
  next
    assume "\<exists>r r'. qtrue_loop rnd x t [0..<?m] (np_empty junk ?m) = Inr r
        \<and> qtrue_loop rnd x t [0..<?m] (np_empty junk' ?m) = Inr r'
        \<and> length r = length (np_empty junk ?m) \<and> length r' = length (np_empty junk ?m)
        \<and> (\<forall>j<length (np_empty junk ?m).
              j \<in> set [0..<?m] \<or> np_empty junk ?m ! j = np_empty junk' ?m ! j \<longrightarrow> r ! j = r' ! j)"
    then obtain r r' where r: "qtrue_loop rnd x t [0..<?m] (np_empty junk ?m) = Inr r"
      "qtrue_loop rnd x t [0..<?m] (np_empty junk' ?m) = Inr r'"
      "length r = ?m" "length r' = ?m" "\<forall>j<?m. r ! j = r' ! j"
      using len(2) by auto
    then have "r = r'" by (intro nth_equalityI) simp_all
    then show ?thesis using r by (simp add: qtrue_array_def Let_def)
  qed
qed

lemma qtrue_junk: "qtrue rnd junk x t = qtrue rnd junk' x t"
  by (simp add: qtrue_def qtrue_array_junk[of rnd junk x t junk'])


lemma qtrue_array_st_result:
  assumes "xa < fresh st"
  shows "\<exists>q'. qtrue_array_st rnd junk xa t st =
            (case qtrue_array rnd junk (objs st xa) t of Inl e \<Rightarrow> Inl e | Inr v \<Rightarrow> Inr (fresh st),
             st\<lparr>objs := (objs st)(fresh st := NdArray q'), fresh := Suc (fresh st)\<rparr>)
          \<and> (\<forall>v. qtrue_array rnd junk (objs st xa) t = Inr v \<longrightarrow> v = NdArray q')"
proof -
  let ?m = "np_size (objs st xa)"
  let ?q0 = "np_empty junk ?m"
  let ?st0 = "st\<lparr>objs := (objs st)(fresh st := NdArray ?q0), fresh := Suc (fresh st)\<rparr>"
  have ne: "xa \<noteq> fresh st" using assms by simp
  have x0: "objs ?st0 xa = objs st xa" using ne by simp
  have "\<exists>q'. qtrue_loop_st rnd xa t [0..<?m] (fresh st) ?st0 =
            (case qtrue_loop rnd (objs ?st0 xa) t [0..<?m] ?q0 of Inl e \<Rightarrow> Some e | Inr r \<Rightarrow> None,
             ?st0\<lparr>objs := (objs ?st0)(fresh st := NdArray q')\<rparr>)
          \<and> (\<forall>r. qtrue_loop rnd (objs ?st0 xa) t [0..<?m] ?q0 = Inr r \<longrightarrow> r = q')"
    using ne by (intro qtrue_loop_st_refines) simp_all
  then obtain q' where loop: "qtrue_loop_st rnd xa t [0..<?m] (fresh st) ?st0 =
            (case qtrue_loop rnd (objs st xa) t [0..<?m] ?q0 of Inl e \<Rightarrow> Some e | Inr r \<Rightarrow> None,
             ?st0\<lparr>objs := (objs ?st0)(fresh st := NdArray q')\<rparr>)"
    and res: "\<forall>r. qtrue_loop rnd (objs st xa) t [0..<?m] ?q0 = Inr r \<longrightarrow> r = q'"
    unfolding x0 by blast
  have st: "?st0\<lparr>objs := (objs ?st0)(fresh st := NdArray q')\<rparr>
            = st\<lparr>objs := (objs st)(fresh st := NdArray q'), fresh := Suc (fresh st)\<rparr>"
    by (cases st) simp
  show ?thesis
  proof (intro exI[of _ q'] conjI allI impI)
    show "qtrue_array_st rnd junk xa t st =
            (case qtrue_array rnd junk (objs st xa) t of Inl e \<Rightarrow> Inl e | Inr v \<Rightarrow> Inr (fresh st),
             st\<lparr>objs := (objs st)(fresh st := NdArray q'), fresh := Suc (fresh st)\<rparr>)"
      using loop unfolding st
      by (simp add: qtrue_array_st_def qtrue_array_def alloc_def Let_def split: sum.splits)
  next
    fix v assume "qtrue_array rnd junk (objs st xa) t = Inr v"
    then show "v = NdArray q'"
      using res by (auto simp: qtrue_array_def Let_def split: sum.splits)
  qed
qed

text \<open>
  One call: the caller sees what \<open>qtrue\<close> computes from the object at \<open>xa\<close>; every object
  allocated before the call is unchanged, and so is \<open>probdata\<close>; the result is a new object.
\<close>

lemma qtrue_st_call:
  assumes "xa < fresh st"
  shows "observe (qtrue_st rnd junk xa t st) = qtrue rnd junk (objs st xa) t
       \<and> (\<forall>a<fresh st. objs (snd (qtrue_st rnd junk xa t st)) a = objs st a)
       \<and> probdata (snd (qtrue_st rnd junk xa t st)) = probdata st
       \<and> fresh st \<le> fresh (snd (qtrue_st rnd junk xa t st))
       \<and> (\<forall>a. fst (qtrue_st rnd junk xa t st) = Inr a \<longrightarrow>
            fresh st \<le> a \<and> a < fresh (snd (qtrue_st rnd junk xa t st)))"
proof (cases "isinstance_ndarray_list (objs st xa)")
  case True
  obtain q' where a: "qtrue_array_st rnd junk xa t st =
            (case qtrue_array rnd junk (objs st xa) t of Inl e \<Rightarrow> Inl e | Inr v \<Rightarrow> Inr (fresh st),
             st\<lparr>objs := (objs st)(fresh st := NdArray q'), fresh := Suc (fresh st)\<rparr>)"
    and r: "\<forall>v. qtrue_array rnd junk (objs st xa) t = Inr v \<longrightarrow> v = NdArray q'"
    using qtrue_array_st_result[OF assms] by blast
  have ne: "xa \<noteq> fresh st" using assms by simp
  have v: "qtrue rnd junk (objs st xa) t = qtrue_array rnd junk (objs st xa) t"
    using True by (cases "objs st xa"; cases "qtrue_array rnd junk (objs st xa) t") (simp_all add: qtrue_def)
  show ?thesis
  proof (cases "qtrue_array rnd junk (objs st xa) t")
    case (Inl e)
    then show ?thesis
      using True a ne v by (simp add: qtrue_st_def observe_def)
  next
    case (Inr w)
    then have w: "w = NdArray q'" using r by simp
    have "objs st xa \<noteq> Scalar s" for s using True by (cases "objs st xa") auto
    then show ?thesis
      using True a ne v Inr w
      by (cases "objs st xa") (simp_all add: qtrue_st_def observe_def)
  qed
next
  case False
  show ?thesis
  proof (cases "objs st xa")
    case (Scalar s)
    then show ?thesis
      by (cases "qtrue_scalar rnd s t")
        (simp_all add: qtrue_st_def qtrue_scalar_st_def alloc_def observe_def qtrue_of_scalar)
  qed (use False in \<open>simp_all add: qtrue_st_def observe_def qtrue_def\<close>)
qed


text \<open>
  Claim C8. \<open>qtrue\<close> is deterministic, pure and stateless. A call on an allocated input
  returns what the contents of \<open>x\<close> and \<open>t\<close> alone determine: not the memory that
  \<open>np.empty\<close> hands out, not \<open>probdata\<close>, not any other object. A second call with the same
  \<open>(x, t)\<close>, run in the store the first call left and with other memory, returns an equal
  result and leaves the first result as it was. Neither call changes an object that existed
  before, the input array among them, nor \<open>probdata\<close>.
\<close>

theorem qtrue_pure:
  assumes "xa < fresh st"
  shows "(let rs1 = qtrue_st rnd junk1 xa t st;
              rs2 = qtrue_st rnd junk2 xa t (snd rs1)
          in observe rs1 = qtrue rnd zero_mem (objs st xa) t
           \<and> observe rs2 = observe rs1
           \<and> map_sum id (objs (snd rs2)) (fst rs1) = observe rs1
           \<and> (\<forall>a<fresh st. objs (snd rs1) a = objs st a \<and> objs (snd rs2) a = objs st a)
           \<and> probdata (snd rs1) = probdata st \<and> probdata (snd rs2) = probdata st)"
proof -
  let ?rs1 = "qtrue_st rnd junk1 xa t st"
  let ?rs2 = "qtrue_st rnd junk2 xa t (snd ?rs1)"
  note c1 = qtrue_st_call[OF assms, of rnd junk1 t]
  have xa1: "xa < fresh (snd ?rs1)" using c1 assms by linarith
  note c2 = qtrue_st_call[OF xa1, of rnd junk2 t]
  have x1: "objs (snd ?rs1) xa = objs st xa" using c1 assms by blast
  have o1: "observe ?rs1 = qtrue rnd zero_mem (objs st xa) t"
    using c1 qtrue_junk[of rnd junk1 "objs st xa" t zero_mem] by simp
  have o2: "observe ?rs2 = observe ?rs1"
    using c1 c2 x1 qtrue_junk[of rnd junk2 "objs st xa" t junk1] by simp
  have keep: "map_sum id (objs (snd ?rs2)) (fst ?rs1) = observe ?rs1"
  proof (cases "fst ?rs1")
    case (Inl e)
    then show ?thesis by (simp add: observe_def)
  next
    case (Inr a)
    then have "a < fresh (snd ?rs1)" using c1 by blast
    then have "objs (snd ?rs2) a = objs (snd ?rs1) a" using c2 by blast
    then show ?thesis using Inr by (simp add: observe_def)
  qed
  have frame: "objs (snd ?rs1) a = objs st a \<and> objs (snd ?rs2) a = objs st a" if "a < fresh st" for a
  proof -
    have 1: "objs (snd ?rs1) a = objs st a" using c1 that by blast
    have "a < fresh (snd ?rs1)" using c1 that by linarith
    then have "objs (snd ?rs2) a = objs (snd ?rs1) a" using c2 by blast
    then show ?thesis using 1 by simp
  qed
  have p: "probdata (snd ?rs1) = probdata st" "probdata (snd ?rs2) = probdata st"
    using c1 c2 by simp_all
  show ?thesis
    unfolding Let_def using o1 o2 keep frame p by blast
qed

lemma example_value:
  "qtrue exact zero_mem (NdArray [Fin 0, Fin 4]) (Fin 1.5) = Inr (NdArray [Fin 0, Fin 0.25])"
proof -
  have "cell exact (PyFloat (Fin 4)) (Fin 1.5) = Fin 0.25"
    by (simp add: cell_exact sqrt_four)
  then show ?thesis by (simp add: qtrue_of_array cell_zero)
qed

theorem qtrue_pure_witness:
  "0 < fresh example_store
   \<and> observe (qtrue_st exact zero_mem 0 (Fin 1.5) example_store) = Inr (NdArray [Fin 0, Fin 0.25])
   \<and> observe (qtrue_st exact nan_mem 0 (Fin 1.5) (snd (qtrue_st exact zero_mem 0 (Fin 1.5) example_store)))
       = Inr (NdArray [Fin 0, Fin 0.25])
   \<and> objs (snd (qtrue_st exact nan_mem 0 (Fin 1.5) (snd (qtrue_st exact zero_mem 0 (Fin 1.5) example_store)))) 0
       = NdArray [Fin 0, Fin 4]
   \<and> probdata (snd (qtrue_st exact nan_mem 0 (Fin 1.5) (snd (qtrue_st exact zero_mem 0 (Fin 1.5) example_store))))
       = (1, 100)"
proof -
  have f: "0 < fresh example_store" and x: "objs example_store 0 = NdArray [Fin 0, Fin 4]"
    and p: "probdata example_store = (1, 100)"
    by (simp_all add: example_store_def)
  note th = qtrue_pure[OF f, of exact zero_mem "Fin 1.5" nan_mem, unfolded Let_def x p example_value]
  from th f x show ?thesis by auto
qed

end
